theory Spec2Isabelle
  imports Main "HOL-Library.Sublist" "HOL-Library.AList"
begin

section \<open>Python values and strings\<close>

text \<open>
  The functions of Python's \<^verbatim>\<open>str\<close> that the sources call, over \<^typ>\<open>string\<close>.
  Whitespace is the ASCII whitespace of \<^verbatim>\<open>str.isspace\<close>.
\<close>

definition is_space :: "char \<Rightarrow> bool" where
  "is_space c = (c = CHR '' '' \<or> c = CHR 0x09 \<or> c = CHR 0x0A \<or> c = CHR 0x0B
                 \<or> c = CHR 0x0C \<or> c = CHR 0x0D)"

definition py_strip :: "string \<Rightarrow> string" where
  "py_strip s = rev (dropWhile is_space (rev (dropWhile is_space s)))"

text \<open>\<^verbatim>\<open>s.split(c)\<close> for a one-character separator: never the empty list.\<close>

fun py_split_on :: "char \<Rightarrow> string \<Rightarrow> string list" where
  "py_split_on c [] = [[]]"
| "py_split_on c (x # xs) =
     (if x = c then [] # py_split_on c xs
      else (x # hd (py_split_on c xs)) # tl (py_split_on c xs))"

text \<open>\<^verbatim>\<open>s.split()\<close>: maximal runs of non-whitespace; \<open>cur\<close> is the current word, reversed.\<close>

fun split_ws :: "string \<Rightarrow> string \<Rightarrow> string list" where
  "split_ws cur [] = (if cur = [] then [] else [rev cur])"
| "split_ws cur (x # xs) =
     (if is_space x then (if cur = [] then split_ws [] xs else rev cur # split_ws [] xs)
      else split_ws (x # cur) xs)"

definition py_split :: "string \<Rightarrow> string list" where
  "py_split s = split_ws [] s"

text \<open>\<^verbatim>\<open>sep.join(xs)\<close>.\<close>

fun py_join :: "string \<Rightarrow> string list \<Rightarrow> string" where
  "py_join sep [] = []"
| "py_join sep [x] = x"
| "py_join sep (x # y # ys) = x @ sep @ py_join sep (y # ys)"

text \<open>\<^verbatim>\<open>str(n)\<close> for a non-negative integer.\<close>

definition digit_char :: "nat \<Rightarrow> char" where
  "digit_char d = char_of (48 + d)"

function show_nat :: "nat \<Rightarrow> string" where
  "show_nat n = (if n < 10 then [digit_char n] else show_nat (n div 10) @ [digit_char (n mod 10)])"
  by pat_completeness auto
termination
  by (relation "measure id") auto

declare show_nat.simps [simp del]

text \<open>
  The values an analyzer can hand back. A dictionary keeps its insertion order, so it is
  an association list; keys are strings.
\<close>

datatype pyval =
    PyNone
  | PyBool bool
  | PyInt int
  | PyStr string
  | PyList "pyval list"
  | PyDict "(string \<times> pyval) list"

text \<open>Truth value of an object, as \<^verbatim>\<open>if x:\<close> tests it.\<close>

fun truthy :: "pyval \<Rightarrow> bool" where
  "truthy PyNone = False"
| "truthy (PyBool b) = b"
| "truthy (PyInt n) = (n \<noteq> 0)"
| "truthy (PyStr s) = (s \<noteq> [])"
| "truthy (PyList xs) = (xs \<noteq> [])"
| "truthy (PyDict kvs) = (kvs \<noteq> [])"

fun is_dict :: "pyval \<Rightarrow> bool" where
  "is_dict (PyDict kvs) = True"
| "is_dict _ = False"

text \<open>\<^verbatim>\<open>k in d\<close> and \<^verbatim>\<open>d.get(k)\<close> on a dictionary's items.\<close>

definition has_key :: "(string \<times> pyval) list \<Rightarrow> string \<Rightarrow> bool" where
  "has_key kvs k = (map_of kvs k \<noteq> None)"

definition dict_get :: "(string \<times> pyval) list \<Rightarrow> string \<Rightarrow> pyval" where
  "dict_get kvs k = (case map_of kvs k of None \<Rightarrow> PyNone | Some v \<Rightarrow> v)"

fun py_get :: "pyval \<Rightarrow> string \<Rightarrow> pyval" where
  "py_get (PyDict kvs) k = dict_get kvs k"
| "py_get _ k = PyNone"

section \<open>Exceptions, the environment and the world\<close>

datatype exn =
    CalledProcessError int
  | OSError string
  | UnicodeDecodeError
  | ValueError string
  | AnalyzerError string

fun str_exn :: "exn \<Rightarrow> string" where
  "str_exn (CalledProcessError rc) = ''Command returned non-zero exit status''"
| "str_exn (OSError m) = m"
| "str_exn UnicodeDecodeError = ''invalid start byte''"
| "str_exn (ValueError m) = m"
| "str_exn (AnalyzerError m) = m"

text \<open>
  Everything the code does to the outside is recorded, in order: the commands it runs,
  the messages it hands to the progress callback, what it prints on standard error, and
  its calls on the file system and on the analyzer.
\<close>

datatype event =
    Subprocess "string list"
  | Progress string
  | Stderr string
  | Traceback
  | Mkdtemp string
  | MkdirParents string
  | WriteText string
  | Analyze "string list"
  | Rmtree string

text \<open>
  The repository, as the version-control system holds it. A blob is text or bytes that do
  not decode. Commits are listed the way \<^verbatim>\<open>git log --oneline --all\<close> prints them, each under
  the identifier that command prints for it.
\<close>

datatype blob = Utf8 string | Binary

record commit =
  cid :: string
  subject :: string
  tree :: "(string \<times> blob) list"

record git_repo =
  head_ref :: string
  refs :: "(string \<times> string) list"
  worktree :: "(string \<times> string) list"
  commits :: "commit list"
  intact :: bool

text \<open>
  What the code cannot control: whether \<^verbatim>\<open>git\<close> can be started, the current directory,
  the temporary-file area (its root, the names \<^verbatim>\<open>mkdtemp\<close> draws, how often it retries,
  whether it may create anything), which file-system calls fail, whether paths exist, and
  the analyzer (\<open>None\<close> when its module could not be imported). The analyzer sees the paths
  it is given and the files materialized so far.
\<close>

datatype outcome = Raises string | Returns pyval

record env =
  git_installed :: bool
  cwd :: string
  fs_resolve :: "string \<Rightarrow> string"
  fs_exists :: "string \<Rightarrow> bool"
  tmp_root :: string
  tmp_names :: "nat \<Rightarrow> string"
  tmp_max :: nat
  mkdtemp_denied :: bool
  mkdir_fails :: "string \<Rightarrow> bool"
  write_fails :: "string \<Rightarrow> bool"
  rmtree_fails :: "string \<Rightarrow> bool"
  analyzer :: "(string list \<Rightarrow> (string \<times> string) list \<Rightarrow> outcome) option"

text \<open>
  The state a run can change: the repository, the temporary-file area (outside the
  repository: its directories and its files by absolute path), the position in the stream
  of temporary names, and the record of events.
\<close>

record world =
  repo :: git_repo
  tmp_dirs :: "string list"
  tmp_files :: "(string \<times> string) list"
  rng :: nat
  trace :: "event list"

definition log_event :: "event \<Rightarrow> world \<Rightarrow> world" where
  "log_event ev w = w\<lparr>trace := trace w @ [ev]\<rparr>"

text \<open>\<^verbatim>\<open>if progress_callback: progress_callback(msg)\<close>; \<open>cb\<close> says a callback was given.\<close>

definition emit :: "bool \<Rightarrow> string \<Rightarrow> world \<Rightarrow> world" where
  "emit cb msg w = (if cb then log_event (Progress msg) w else w)"

section \<open>The version-control commands\<close>

text \<open>
  What the operating system returns for a command: it could not be started, or it exited
  with a status and the bytes of its standard output.
\<close>

datatype proc = SpawnFailed | Exited int blob

text \<open>
  \<^verbatim>\<open>subprocess.run(..., capture_output=True, text=True, check=True)\<close>: the output is
  decoded while it is collected, then a non-zero status raises.
\<close>

fun subprocess_run :: "proc \<Rightarrow> exn + string" where
  "subprocess_run SpawnFailed = Inl (OSError ''No such file or directory: git'')"
| "subprocess_run (Exited rc Binary) = Inl UnicodeDecodeError"
| "subprocess_run (Exited rc (Utf8 s)) = (if rc \<noteq> 0 then Inl (CalledProcessError rc) else Inr s)"

fun find_commit :: "commit list \<Rightarrow> string \<Rightarrow> commit option" where
  "find_commit [] rv = None"
| "find_commit (c # cs) rv = (if cid c = rv then Some c else find_commit cs rv)"

text \<open>The blob a revision holds at a path, if the object database can be read.\<close>

definition blob_at :: "git_repo \<Rightarrow> string \<Rightarrow> string \<Rightarrow> blob option" where
  "blob_at r rv path =
     (if \<not> intact r then None
      else case find_commit (commits r) rv of
             None \<Rightarrow> None
           | Some c \<Rightarrow> map_of (tree c) path)"

text \<open>
  \<^verbatim>\<open>git show <rev>:<path>\<close> prints the blob, and exits with status 128 when the revision
  or the path does not resolve. It reads the repository and nothing else.
\<close>

definition git_show :: "env \<Rightarrow> git_repo \<Rightarrow> string \<Rightarrow> string \<Rightarrow> proc" where
  "git_show e r rv path =
     (if \<not> git_installed e then SpawnFailed
      else case blob_at r rv path of
             None \<Rightarrow> Exited 128 (Utf8 [])
           | Some b \<Rightarrow> Exited 0 b)"

definition log_line :: "commit \<Rightarrow> string" where
  "log_line c = cid c @ '' '' @ subject c @ [CHR 0x0A]"

text \<open>\<^verbatim>\<open>git log --oneline --all\<close>: one line for each commit.\<close>

definition git_log :: "env \<Rightarrow> git_repo \<Rightarrow> proc" where
  "git_log e r =
     (if \<not> git_installed e then SpawnFailed
      else if \<not> intact r then Exited 128 (Utf8 [])
      else Exited 0 (Utf8 (concat (map log_line (commits r)))))"

section \<open>SafeGitHistoryAnalyzer\<close>

record analyzer_self =
  repo_path :: string

text \<open>\<^verbatim>\<open>__init__\<close>: the resolved path must hold a \<^verbatim>\<open>.git\<close> entry.\<close>

definition init :: "env \<Rightarrow> string \<Rightarrow> exn + analyzer_self" where
  "init e path =
     (let rp = fs_resolve e path in
      if \<not> fs_exists e (rp @ ''/.git'')
      then Inl (ValueError (''Not a git repository: '' @ rp))
      else Inr \<lparr>repo_path = rp\<rparr>)"

text \<open>
  \<^verbatim>\<open>get_file_content_at_commit\<close>: the standard output of \<^verbatim>\<open>git show\<close>, or \<open>None\<close> when the
  command exits with a non-zero status. Any other exception leaves the function.
\<close>

definition get_file_content_at_commit ::
  "env \<Rightarrow> analyzer_self \<Rightarrow> string \<Rightarrow> string \<Rightarrow> world \<Rightarrow> (exn + string option) \<times> world" where
  "get_file_content_at_commit e self commit_hash file_path w =
     (let w1 = log_event (Subprocess [''git'', ''show'', commit_hash @ '':'' @ file_path]) w in
      case subprocess_run (git_show e (repo w1) commit_hash file_path) of
        Inr out \<Rightarrow> (Inr (Some out), w1)
      | Inl (CalledProcessError rc) \<Rightarrow> (Inr None, w1)
      | Inl ex \<Rightarrow> (Inl ex, w1))"

section \<open>Paths\<close>

text \<open>
  \<^verbatim>\<open>os.path\<close> on a POSIX system, as \<^verbatim>\<open>posixpath\<close> defines \<^verbatim>\<open>join\<close>, \<^verbatim>\<open>normpath\<close>,
  \<^verbatim>\<open>abspath\<close> and \<^verbatim>\<open>relpath\<close>.
\<close>

definition path_join :: "string \<Rightarrow> string \<Rightarrow> string" where
  "path_join a b =
     (if prefix ''/'' b then b
      else if a = [] \<or> last a = CHR ''/'' then a @ b
      else a @ ''/'' @ b)"

fun norm_comps :: "bool \<Rightarrow> string list \<Rightarrow> string list \<Rightarrow> string list" where
  "norm_comps initial new_comps [] = new_comps"
| "norm_comps initial new_comps (seg # comps) =
     (if seg = [] \<or> seg = ''.'' then norm_comps initial new_comps comps
      else if seg \<noteq> ''..'' \<or> (\<not> initial \<and> new_comps = [])
                \<or> (new_comps \<noteq> [] \<and> last new_comps = ''..'')
           then norm_comps initial (new_comps @ [seg]) comps
      else if new_comps \<noteq> [] then norm_comps initial (butlast new_comps) comps
      else norm_comps initial new_comps comps)"

definition normpath :: "string \<Rightarrow> string" where
  "normpath path =
     (if path = [] then ''.''
      else
        let initial_slashes =
              (if prefix ''/'' path
               then (if prefix ''//'' path \<and> \<not> prefix ''///'' path then 2 else 1)
               else (0::nat));
            comps = norm_comps (initial_slashes \<noteq> 0) [] (py_split_on CHR ''/'' path);
            p = replicate initial_slashes CHR ''/'' @ py_join ''/'' comps
        in if p = [] then ''.'' else p)"

definition abspath :: "env \<Rightarrow> string \<Rightarrow> string" where
  "abspath e path = normpath (if prefix ''/'' path then path else path_join (cwd e) path)"

definition relpath :: "env \<Rightarrow> string \<Rightarrow> string \<Rightarrow> exn + string" where
  "relpath e path start =
     (if path = [] then Inl (ValueError ''no path specified'')
      else
        let start_list = filter (\<lambda>x. x \<noteq> []) (py_split_on CHR ''/'' (abspath e start));
            path_list = filter (\<lambda>x. x \<noteq> []) (py_split_on CHR ''/'' (abspath e path));
            i = length (longest_common_prefix start_list path_list);
            rel_list = replicate (length start_list - i) ''..'' @ drop i path_list
        in if rel_list = [] then Inr ''.'' else Inr (py_join ''/'' rel_list))"

text \<open>The parent of a path: what stands before its last separator.\<close>

definition parent :: "string \<Rightarrow> string" where
  "parent p = rev (drop 1 (dropWhile (\<lambda>c. c \<noteq> CHR ''/'') (rev p)))"

section \<open>The temporary-file area\<close>

text \<open>
  \<^verbatim>\<open>tempfile.mkdtemp(prefix=...)\<close>: draws names until one does not exist yet, at most
  \<open>tmp_max\<close> times, and creates the directory under that name.
\<close>

fun mkdtemp_try :: "env \<Rightarrow> string \<Rightarrow> string list \<Rightarrow> nat \<Rightarrow> nat \<Rightarrow> (exn + string) \<times> nat" where
  "mkdtemp_try e pre existing 0 i =
     (Inl (OSError ''No usable temporary directory name found''), i)"
| "mkdtemp_try e pre existing (Suc k) i =
     (let file = tmp_root e @ ''/'' @ pre @ tmp_names e i in
      if file \<in> set existing then mkdtemp_try e pre existing k (Suc i)
      else if mkdtemp_denied e then (Inl (OSError ''Permission denied''), Suc i)
      else (Inr file, Suc i))"

definition mkdtemp :: "env \<Rightarrow> string \<Rightarrow> world \<Rightarrow> (exn + string) \<times> world" where
  "mkdtemp e pre w =
     (let w1 = log_event (Mkdtemp pre) w in
      case mkdtemp_try e pre (tmp_dirs w1) (tmp_max e) (rng w1) of
        (Inl ex, i) \<Rightarrow> (Inl ex, w1\<lparr>rng := i\<rparr>)
      | (Inr d, i) \<Rightarrow> (Inr d, w1\<lparr>tmp_dirs := tmp_dirs w1 @ [d], rng := i\<rparr>))"

definition mkdir_parents :: "env \<Rightarrow> string \<Rightarrow> world \<Rightarrow> (exn + unit) \<times> world" where
  "mkdir_parents e d w =
     (let w1 = log_event (MkdirParents d) w in
      if mkdir_fails e d then (Inl (OSError ''mkdir failed''), w1) else (Inr (), w1))"

definition write_text :: "env \<Rightarrow> string \<Rightarrow> string \<Rightarrow> world \<Rightarrow> (exn + unit) \<times> world" where
  "write_text e p content w =
     (let w1 = log_event (WriteText p) w in
      if write_fails e p then (Inl (OSError ''write failed''), w1)
      else (Inr (), w1\<lparr>tmp_files := AList.update p content (tmp_files w1)\<rparr>))"

text \<open>\<^verbatim>\<open>shutil.rmtree\<close>: the directory and everything below it, or an error.\<close>

definition rmtree :: "env \<Rightarrow> string \<Rightarrow> world \<Rightarrow> (exn + unit) \<times> world" where
  "rmtree e d w =
     (let w1 = log_event (Rmtree d) w in
      if rmtree_fails e d then (Inl (OSError ''rmtree failed''), w1)
      else (Inr (), w1\<lparr>tmp_dirs := removeAll d (tmp_dirs w1),
                        tmp_files := filter (\<lambda>(p, c). \<not> prefix (d @ ''/'') p) (tmp_files w1)\<rparr>))"

section \<open>One revision\<close>

text \<open>
  The loop over the target files in \<^verbatim>\<open>analyze_commit_safely\<close>: a file whose relative path
  starts with two dots is skipped, a file that the revision does not hold is skipped, every
  other file is written below the temporary directory under its relative path.
\<close>

fun materialize ::
  "env \<Rightarrow> analyzer_self \<Rightarrow> string \<Rightarrow> string \<Rightarrow> string list \<Rightarrow> string list \<Rightarrow> world
     \<Rightarrow> (exn + string list) \<times> world" where
  "materialize e self commit_hash temp_dir [] temp_files w = (Inr temp_files, w)"
| "materialize e self commit_hash temp_dir (file_path # rest) temp_files w =
     (case relpath e file_path (repo_path self) of
        Inl ex \<Rightarrow> (Inl ex, w)
      | Inr rel_path \<Rightarrow>
          if prefix ''..'' rel_path
          then materialize e self commit_hash temp_dir rest temp_files w
          else
            (case get_file_content_at_commit e self commit_hash rel_path w of
               (Inl ex, w1) \<Rightarrow> (Inl ex, w1)
             | (Inr None, w1) \<Rightarrow> materialize e self commit_hash temp_dir rest temp_files w1
             | (Inr (Some content), w1) \<Rightarrow>
                 (let temp_file_path = temp_dir @ ''/'' @ rel_path in
                  case mkdir_parents e (parent temp_file_path) w1 of
                    (Inl ex, w2) \<Rightarrow> (Inl ex, w2)
                  | (Inr u, w2) \<Rightarrow>
                      (case write_text e temp_file_path content w2 of
                         (Inl ex, w3) \<Rightarrow> (Inl ex, w3)
                       | (Inr u', w3) \<Rightarrow>
                           materialize e self commit_hash temp_dir rest
                             (temp_files @ [temp_file_path]) w3))))"

text \<open>\<^verbatim>\<open>if 'variables' not in result: result['variables'] = {}\<close>, and the same for a key.\<close>

definition ensure_key :: "string \<Rightarrow> (string \<times> pyval) list \<Rightarrow> (string \<times> pyval) list" where
  "ensure_key k kvs = (if has_key kvs k then kvs else kvs @ [(k, PyDict [])])"

fun ensure_keys :: "pyval \<Rightarrow> pyval" where
  "ensure_keys (PyDict kvs) = PyDict (ensure_key ''metadata'' (ensure_key ''variables'' kvs))"
| "ensure_keys v = v"

text \<open>The call of the analyzer, with the handler around it.\<close>

definition run_analysis ::
  "env \<Rightarrow> string \<Rightarrow> string list \<Rightarrow> bool \<Rightarrow> world \<Rightarrow> pyval option \<times> world" where
  "run_analysis e commit_hash temp_files cb w =
     (case analyzer e of
        None \<Rightarrow>
          (None, emit cb (''Analysis module not available for commit '' @ take 8 commit_hash) w)
      | Some f \<Rightarrow>
          (let w1 = log_event (Analyze temp_files) w in
           case f temp_files (tmp_files w1) of
             Raises msg \<Rightarrow>
               (None,
                log_event Traceback
                  (log_event (Stderr (''Error analyzing commit '' @ commit_hash @ '': '' @ msg))
                    (emit cb (''Error during analysis for commit '' @ take 8 commit_hash
                                @ '': '' @ msg) w1)))
           | Returns result \<Rightarrow>
               if truthy result \<and> is_dict result then (Some (ensure_keys result), w1)
               else (None,
                     emit cb (''Analysis returned invalid result for commit ''
                                @ take 8 commit_hash) w1)))"

text \<open>The body of the outer \<^verbatim>\<open>try\<close>, after the directory exists.\<close>

definition try_body ::
  "env \<Rightarrow> analyzer_self \<Rightarrow> string \<Rightarrow> string list \<Rightarrow> bool \<Rightarrow> string \<Rightarrow> world
     \<Rightarrow> (exn + pyval option) \<times> world" where
  "try_body e self commit_hash target_files cb temp_dir w =
     (case materialize e self commit_hash temp_dir target_files [] w of
        (Inl ex, w1) \<Rightarrow> (Inl ex, w1)
      | (Inr temp_files, w1) \<Rightarrow>
          if temp_files = []
          then (Inr None, emit cb (''No files found in commit '' @ take 8 commit_hash) w1)
          else (case run_analysis e commit_hash temp_files cb w1 of (r, w2) \<Rightarrow> (Inr r, w2)))"

text \<open>The outer \<^verbatim>\<open>except Exception\<close>: standard error only.\<close>

definition on_error :: "string \<Rightarrow> exn \<Rightarrow> world \<Rightarrow> world" where
  "on_error commit_hash ex w =
     log_event Traceback
       (log_event (Stderr (''Error analyzing commit '' @ commit_hash @ '': '' @ str_exn ex)) w)"

text \<open>The \<^verbatim>\<open>finally\<close> clause.\<close>

definition cleanup :: "env \<Rightarrow> string option \<Rightarrow> world \<Rightarrow> world" where
  "cleanup e temp_dir w =
     (case temp_dir of
        None \<Rightarrow> w
      | Some d \<Rightarrow>
          if d \<noteq> [] \<and> d \<in> set (tmp_dirs w)
          then (case rmtree e d w of
                  (Inl ex, w1) \<Rightarrow>
                    log_event (Stderr (''Warning: Could not clean up temp directory '' @ d
                                         @ '': '' @ str_exn ex)) w1
                | (Inr u, w1) \<Rightarrow> w1)
          else w)"

definition analyze_commit_safely ::
  "env \<Rightarrow> analyzer_self \<Rightarrow> string \<Rightarrow> string list \<Rightarrow> bool \<Rightarrow> world \<Rightarrow> pyval option \<times> world" where
  "analyze_commit_safely e self commit_hash target_files cb w =
     (let w0 = emit cb (''Analyzing commit '' @ take 8 commit_hash @ ''...'') w in
      case mkdtemp e (''git_analysis_'' @ take 8 commit_hash @ ''_'') w0 of
        (Inl ex, w1) \<Rightarrow> (None, cleanup e None (on_error commit_hash ex w1))
      | (Inr temp_dir, w1) \<Rightarrow>
          (case try_body e self commit_hash target_files cb temp_dir w1 of
             (Inl ex, w2) \<Rightarrow> (None, cleanup e (Some temp_dir) (on_error commit_hash ex w2))
           | (Inr r, w2) \<Rightarrow> (r, cleanup e (Some temp_dir) w2)))"

section \<open>All revisions\<close>

text \<open>The lines of the log that are not blank, each cut down to its first word.\<close>

definition parse_commits :: "string \<Rightarrow> string list" where
  "parse_commits out =
     map (\<lambda>line. hd (py_split line))
       (filter (\<lambda>line. py_strip line \<noteq> []) (py_split_on (CHR 0x0A) (py_strip out)))"

text \<open>What the loop does with the result of one revision.\<close>

definition store_result ::
  "bool \<Rightarrow> string \<Rightarrow> pyval option \<Rightarrow> (string \<times> pyval) list \<Rightarrow> world
     \<Rightarrow> (string \<times> pyval) list \<times> world" where
  "store_result cb commit_hash result results w =
     (case result of
        None \<Rightarrow> (results, w)
      | Some r \<Rightarrow>
          if is_dict r
          then (if truthy (py_get r ''variables'') \<or> truthy (py_get r ''metadata'')
                then (AList.update commit_hash r results, w)
                else (results, emit cb (''Commit '' @ take 8 commit_hash
                                          @ '' has no dataflow data'') w))
          else (results, w))"

fun commits_loop ::
  "env \<Rightarrow> analyzer_self \<Rightarrow> string list \<Rightarrow> bool \<Rightarrow> nat \<Rightarrow> nat \<Rightarrow> string list
     \<Rightarrow> (string \<times> pyval) list \<Rightarrow> world \<Rightarrow> (string \<times> pyval) list \<times> world" where
  "commits_loop e self target_files cb n_total i [] results w = (results, w)"
| "commits_loop e self target_files cb n_total i (commit_hash # rest) results w =
     (let w1 = emit cb (''Processing commit '' @ show_nat (i + 1) @ ''/'' @ show_nat n_total
                          @ '': '' @ take 8 commit_hash) w in
      case analyze_commit_safely e self commit_hash target_files cb w1 of
        (result, w2) \<Rightarrow>
          (case store_result cb commit_hash result results w2 of
             (results', w3) \<Rightarrow>
               commits_loop e self target_files cb n_total (i + 1) rest results' w3))"

definition analyze_all_commits ::
  "env \<Rightarrow> analyzer_self \<Rightarrow> string list \<Rightarrow> bool \<Rightarrow> world
     \<Rightarrow> (exn + (string \<times> pyval) list) \<times> world" where
  "analyze_all_commits e self target_files cb w =
     (let w0 = log_event (Subprocess [''git'', ''log'', ''--oneline'', ''--all'']) w in
      case subprocess_run (git_log e (repo w0)) of
        Inl (CalledProcessError rc) \<Rightarrow>
          (Inr [], log_event (Stderr (''Error getting commit list: ''
                                       @ str_exn (CalledProcessError rc))) w0)
      | Inl ex \<Rightarrow> (Inl ex, w0)
      | Inr out \<Rightarrow>
          (let commit_list = parse_commits out in
           case commits_loop e self target_files cb (length commit_list) 0 commit_list [] w0 of
             (results, w1) \<Rightarrow> (Inr results, w1)))"

section \<open>What a run may do to the repository\<close>

text \<open>
  A command is read-only when it is \<^verbatim>\<open>git show\<close> or \<^verbatim>\<open>git log\<close>; the other events do not
  reach the repository at all.
\<close>

fun read_only_event :: "event \<Rightarrow> bool" where
  "read_only_event (Subprocess argv) =
     (take 2 argv = [''git'', ''show''] \<or> take 2 argv = [''git'', ''log''])"
| "read_only_event ev = True"

text \<open>The events that were recorded between two worlds.\<close>

definition new_events :: "world \<Rightarrow> world \<Rightarrow> event list" where
  "new_events w w' = drop (length (trace w)) (trace w')"

text \<open>
  Between the two worlds the repository was left as it was, the record of events only
  grew, and every new event is read-only.
\<close>

definition quiet :: "world \<Rightarrow> world \<Rightarrow> bool" where
  "quiet w w' =
     (repo w' = repo w \<and> prefix (trace w) (trace w')
      \<and> list_all read_only_event (new_events w w'))"

text \<open>
  The directories a run asked \<^verbatim>\<open>mkdtemp\<close> for, in order: one request opens the pass over one
  revision.
\<close>

fun mkdtemp_prefixes :: "event list \<Rightarrow> string list" where
  "mkdtemp_prefixes [] = []"
| "mkdtemp_prefixes (Mkdtemp p # evs) = p # mkdtemp_prefixes evs"
| "mkdtemp_prefixes (ev # evs) = mkdtemp_prefixes evs"

section \<open>A concrete repository\<close>

text \<open>
  Two commits, newest first, each holding one file. The analyzer raises on the newer
  content and reports one variable for the older one.
\<close>

definition ex_repo :: git_repo where
  "ex_repo =
     \<lparr>head_ref = ''refs/heads/main'',
      refs = [(''refs/heads/main'', ''b2b2b2b'')],
      worktree = [(''a.py'', ''x = 2'')],
      commits =
        [\<lparr>cid = ''b2b2b2b'', subject = ''second'', tree = [(''a.py'', Utf8 ''x = 2'')]\<rparr>,
         \<lparr>cid = ''a1a1a1a'', subject = ''first'', tree = [(''a.py'', Utf8 ''x = 1'')]\<rparr>],
      intact = True\<rparr>"

definition ex_analyzer :: "string list \<Rightarrow> (string \<times> string) list \<Rightarrow> outcome" where
  "ex_analyzer files contents =
     (if ''x = 2'' \<in> snd ` set contents then Raises ''boom''
      else Returns (PyDict [(''variables'', PyDict [(''x'', PyInt 1)])]))"

definition ex_env :: env where
  "ex_env =
     \<lparr>git_installed = True, cwd = ''/repo'', fs_resolve = (\<lambda>p. p),
      fs_exists = (\<lambda>p. p = ''/repo/.git''), tmp_root = ''/tmp'',
      tmp_names = (\<lambda>i. replicate (Suc i) CHR ''x''), tmp_max = 100, mkdtemp_denied = False,
      mkdir_fails = (\<lambda>p. False), write_fails = (\<lambda>p. False), rmtree_fails = (\<lambda>p. False),
      analyzer = Some ex_analyzer\<rparr>"

definition ex_world :: world where
  "ex_world = \<lparr>repo = ex_repo, tmp_dirs = [], tmp_files = [], rng = 0, trace = []\<rparr>"

definition ex_self :: analyzer_self where
  "ex_self = \<lparr>repo_path = ''/repo''\<rparr>"

text \<open>The same repository when it held the first commit only.\<close>

definition ex_world1 :: world where
  "ex_world1 =
     ex_world\<lparr>repo := ex_repo\<lparr>refs := [(''refs/heads/main'', ''a1a1a1a'')],
                                worktree := [(''a.py'', ''x = 1'')],
                                commits := tl (commits ex_repo)\<rparr>\<rparr>"

section \<open>Properties\<close>

lemma log_event_fields [simp]:
  "repo (log_event ev w) = repo w"
  "tmp_dirs (log_event ev w) = tmp_dirs w"
  "tmp_files (log_event ev w) = tmp_files w"
  "rng (log_event ev w) = rng w"
  "trace (log_event ev w) = trace w @ [ev]"
  by (simp_all add: log_event_def)

lemma emit_fields [simp]:
  "repo (emit cb m w) = repo w"
  "tmp_dirs (emit cb m w) = tmp_dirs w"
  "tmp_files (emit cb m w) = tmp_files w"
  "rng (emit cb m w) = rng w"
  by (simp_all add: emit_def)

lemma has_key_ensure_key_same: "has_key (ensure_key k kvs) k"
  by (auto simp: ensure_key_def has_key_def map_add_def split: option.splits)

lemma has_key_ensure_key: "has_key (ensure_key k kvs) k' = (k' = k \<or> has_key kvs k')"
  by (auto simp: ensure_key_def has_key_def map_add_def split: option.splits)

lemma dict_get_ensure_key:
  "dict_get (ensure_key k kvs) k' =
     (if has_key kvs k' then dict_get kvs k' else if k' = k then PyDict [] else PyNone)"
  by (auto simp: ensure_key_def has_key_def dict_get_def map_of_append split: option.splits)

lemma run_analysis_Some:
  assumes "run_analysis e h tf cb w = (Some r, w')"
  shows "\<exists>f kvs. analyzer e = Some f \<and> f tf (tmp_files w) = Returns (PyDict kvs) \<and> kvs \<noteq> []
           \<and> r = ensure_keys (PyDict kvs) \<and> w' = log_event (Analyze tf) w"
proof (cases "analyzer e")
  case None
  with assms show ?thesis by (simp add: run_analysis_def)
next
  case (Some f)
  show ?thesis
  proof (cases "f tf (tmp_files w)")
    case (Raises m)
    with Some assms show ?thesis by (simp add: run_analysis_def Let_def)
  next
    case (Returns v)
    with Some assms have tv: "truthy v \<and> is_dict v" and r: "r = ensure_keys v"
      and w': "w' = log_event (Analyze tf) w"
      by (auto simp: run_analysis_def Let_def split: if_splits)
    from tv obtain kvs where "v = PyDict kvs" by (cases v) auto
    with tv r w' Some Returns show ?thesis by auto
  qed
qed

lemma try_body_Some:
  assumes "try_body e self h files cb d w = (Inr (Some r), w')"
  shows "\<exists>tf w1. run_analysis e h tf cb w1 = (Some r, w')"
  using assms
  by (auto simp: try_body_def split: prod.splits sum.splits if_splits)

lemma analyze_commit_safely_Some:
  assumes "fst (analyze_commit_safely e self h files cb w) = Some r"
  shows "\<exists>tf w1 w2. run_analysis e h tf cb w1 = (Some r, w2)"
proof -
  obtain m w1 where m: "mkdtemp e (''git_analysis_'' @ take 8 h @ ''_'')
      (emit cb (''Analyzing commit '' @ take 8 h @ ''...'') w) = (m, w1)"
    by (cases "mkdtemp e (''git_analysis_'' @ take 8 h @ ''_'')
      (emit cb (''Analyzing commit '' @ take 8 h @ ''...'') w)")
  show ?thesis
  proof (cases m)
    case (Inl ex)
    with m assms show ?thesis by (simp add: analyze_commit_safely_def)
  next
    case (Inr d)
    obtain b w2 where b: "try_body e self h files cb d w1 = (b, w2)"
      by (cases "try_body e self h files cb d w1")
    show ?thesis
    proof (cases b)
      case (Inl ex)
      with m Inr b assms show ?thesis by (simp add: analyze_commit_safely_def)
    next
      case (Inr r')
      with m \<open>m = Inr d\<close> b assms have "r' = Some r" by (simp add: analyze_commit_safely_def)
      with b Inr show ?thesis using try_body_Some by blast
    qed
  qed
qed

text \<open>
  Claim C10. Every result of \<^verbatim>\<open>analyze_commit_safely\<close> other than \<open>None\<close> is a dictionary
  that holds both \<^verbatim>\<open>variables\<close> and \<^verbatim>\<open>metadata\<close>: it is the dictionary the analyzer
  returned, in which a missing one of the two keys stands for an empty dictionary and every
  other key keeps its value.
\<close>

theorem result_has_both_keys:
  assumes "fst (analyze_commit_safely e self commit_hash target_files cb w) = Some r"
  shows "\<exists>f temp_files contents kvs0 kvs.
           analyzer e = Some f \<and> f temp_files contents = Returns (PyDict kvs0)
           \<and> r = PyDict kvs
           \<and> has_key kvs ''variables'' \<and> has_key kvs ''metadata''
           \<and> (\<forall>k. dict_get kvs k =
                  (if has_key kvs0 k then dict_get kvs0 k
                   else if k = ''variables'' \<or> k = ''metadata'' then PyDict [] else PyNone))"
proof -
  from analyze_commit_safely_Some [OF assms] obtain tf w1 w2
    where "run_analysis e commit_hash tf cb w1 = (Some r, w2)" by blast
  from run_analysis_Some [OF this] obtain f kvs0
    where f: "analyzer e = Some f" "f tf (tmp_files w1) = Returns (PyDict kvs0)"
      and r: "r = ensure_keys (PyDict kvs0)" by blast
  let ?kvs = "ensure_key ''metadata'' (ensure_key ''variables'' kvs0)"
  have "r = PyDict ?kvs" using r by simp
  moreover have "has_key ?kvs ''variables''"
    by (simp add: has_key_ensure_key)
  moreover have "has_key ?kvs ''metadata''" by (simp add: has_key_ensure_key)
  moreover have "\<forall>k. dict_get ?kvs k =
                  (if has_key kvs0 k then dict_get kvs0 k
                   else if k = ''variables'' \<or> k = ''metadata'' then PyDict [] else PyNone)"
    by (simp add: dict_get_ensure_key has_key_ensure_key)
  ultimately show ?thesis using f by blast
qed

theorem result_has_both_keys_witness:
  "fst (analyze_commit_safely ex_env ex_self ''a1a1a1a'' [''/repo/a.py''] True ex_world)
     = Some (PyDict [(''variables'', PyDict [(''x'', PyInt 1)]), (''metadata'', PyDict [])])
   \<and> (\<exists>f temp_files contents kvs0 kvs.
         analyzer ex_env = Some f \<and> f temp_files contents = Returns (PyDict kvs0)
         \<and> PyDict [(''variables'', PyDict [(''x'', PyInt 1)]), (''metadata'', PyDict [])]
             = PyDict kvs
         \<and> has_key kvs ''variables'' \<and> has_key kvs ''metadata''
         \<and> (\<forall>k. dict_get kvs k =
                (if has_key kvs0 k then dict_get kvs0 k
                 else if k = ''variables'' \<or> k = ''metadata'' then PyDict [] else PyNone)))"
proof -
  have h: "fst (analyze_commit_safely ex_env ex_self ''a1a1a1a'' [''/repo/a.py''] True ex_world)
     = Some (PyDict [(''variables'', PyDict [(''x'', PyInt 1)]), (''metadata'', PyDict [])])"
    by code_simp
  from result_has_both_keys [OF h] h show ?thesis by blast
qed




lemma fetch_world:
  "snd (get_file_content_at_commit e self rv path w)
     = log_event (Subprocess [''git'', ''show'', rv @ '':'' @ path]) w"
  by (simp add: get_file_content_at_commit_def Let_def split: sum.splits exn.splits)




text \<open>Every operation of the model is quiet; so are the loops built from them.\<close>

lemma quiet_iff:
  "quiet w w' \<longleftrightarrow>
     repo w' = repo w \<and> (\<exists>new. trace w' = trace w @ new \<and> list_all read_only_event new)"
  by (auto simp: quiet_def new_events_def prefix_def)

lemma quiet_refl [simp]: "quiet w w"
  by (simp add: quiet_iff)

lemma quiet_trans: "quiet w w1 \<Longrightarrow> quiet w1 w2 \<Longrightarrow> quiet w w2"
  by (auto simp: quiet_iff)

lemma quiet_log_event: "read_only_event ev \<Longrightarrow> quiet w (log_event ev w)"
  by (simp add: quiet_iff)

lemma quiet_emit: "quiet w (emit cb m w)"
  by (simp add: emit_def quiet_log_event)

lemma quiet_tmp_update:
  "quiet w (w\<lparr>tmp_dirs := ds\<rparr>)" "quiet w (w\<lparr>tmp_files := fs\<rparr>)" "quiet w (w\<lparr>rng := i\<rparr>)"
  "quiet w (w\<lparr>tmp_dirs := ds, tmp_files := fs\<rparr>)" "quiet w (w\<lparr>tmp_dirs := ds, rng := i\<rparr>)"
  by (simp_all add: quiet_iff)

lemma quiet_fetch: "quiet w (snd (get_file_content_at_commit e self rv path w))"
  by (simp add: fetch_world quiet_log_event)

lemma quiet_mkdtemp: "quiet w (snd (mkdtemp e pre w))"
  by (auto simp: mkdtemp_def Let_def quiet_iff split: prod.splits sum.splits)

lemma quiet_mkdir_parents: "quiet w (snd (mkdir_parents e d w))"
  by (auto simp: mkdir_parents_def Let_def quiet_iff)

lemma quiet_write_text: "quiet w (snd (write_text e p c w))"
  by (auto simp: write_text_def Let_def quiet_iff)

lemma quiet_rmtree: "quiet w (snd (rmtree e d w))"
  by (auto simp: rmtree_def Let_def quiet_iff)

lemma quiet_materialize: "quiet w (snd (materialize e self h d files acc w))"
proof (induction files arbitrary: acc w)
  case Nil
  show ?case by simp
next
  case (Cons f rest)
  show ?case
  proof (cases "relpath e f (repo_path self)")
    case (Inl ex)
    then show ?thesis by simp
  next
    case (Inr rel)
    show ?thesis
    proof (cases "prefix ''..'' rel")
      case True
      with Inr Cons.IH show ?thesis by simp
    next
      case False
      obtain r w1 where g: "get_file_content_at_commit e self h rel w = (r, w1)"
        by (cases "get_file_content_at_commit e self h rel w")
      have q1: "quiet w w1" using quiet_fetch [of w e self h rel] g by simp
      show ?thesis
      proof (cases r)
        case (Inl ex)
        with Inr False g q1 show ?thesis by simp
      next
        case r: (Inr c)
        show ?thesis
        proof (cases c)
          case None
          with Inr False g r q1 Cons.IH [where w = w1 and acc = acc] show ?thesis
            by (auto intro: quiet_trans)
        next
          case (Some content)
          let ?p = "d @ ''/'' @ rel"
          obtain m w2 where m: "mkdir_parents e (parent ?p) w1 = (m, w2)"
            by (cases "mkdir_parents e (parent ?p) w1")
          have q2: "quiet w w2"
            using quiet_mkdir_parents [of w1 e "parent ?p"] m q1 by (auto intro: quiet_trans)
          obtain t w3 where t: "write_text e ?p content w2 = (t, w3)"
            by (cases "write_text e ?p content w2")
          have q3: "quiet w w3"
            using quiet_write_text [of w2 e ?p content] t q2 by (auto intro: quiet_trans)
          show ?thesis
            using Inr False g r Some m t q2 q3 Cons.IH [where w = w3 and acc = "acc @ [?p]"]
            by (cases m; cases t) (auto intro: quiet_trans)
        qed
      qed
    qed
  qed
qed

lemma quiet_run_analysis: "quiet w (snd (run_analysis e h tf cb w))"
  by (auto simp: run_analysis_def Let_def quiet_iff emit_def
      split: option.splits outcome.splits)

lemma quiet_try_body: "quiet w (snd (try_body e self h files cb d w))"
proof -
  obtain r w1 where m: "materialize e self h d files [] w = (r, w1)"
    by (cases "materialize e self h d files [] w")
  have q1: "quiet w w1" using quiet_materialize [of w e self h d files "[]"] m by simp
  show ?thesis
  proof (cases r)
    case (Inl ex)
    with m q1 show ?thesis by (simp add: try_body_def)
  next
    case (Inr tf)
    show ?thesis
    proof (cases "tf = []")
      case True
      with m Inr q1 show ?thesis
        by (auto simp: try_body_def intro: quiet_trans quiet_emit)
    next
      case False
      with m Inr q1 quiet_run_analysis [of w1 e h tf cb] show ?thesis
        by (auto simp: try_body_def split: prod.splits intro: quiet_trans)
    qed
  qed
qed

lemma quiet_on_error: "quiet w (on_error h ex w)"
  by (simp add: on_error_def quiet_iff)

lemma quiet_cleanup: "quiet w (cleanup e td w)"
  by (auto simp: cleanup_def rmtree_def Let_def quiet_iff split: option.splits)

lemma quiet_analyze_commit_safely:
  "quiet w (snd (analyze_commit_safely e self h files cb w))"
proof -
  let ?w0 = "emit cb (''Analyzing commit '' @ take 8 h @ ''...'') w"
  obtain m w1 where m: "mkdtemp e (''git_analysis_'' @ take 8 h @ ''_'') ?w0 = (m, w1)"
    by (cases "mkdtemp e (''git_analysis_'' @ take 8 h @ ''_'') ?w0")
  have q1: "quiet w w1"
    using quiet_mkdtemp [of ?w0 e "''git_analysis_'' @ take 8 h @ ''_''"] m quiet_emit [of w cb]
    by (auto intro: quiet_trans)
  show ?thesis
  proof (cases m)
    case (Inl ex)
    with m show ?thesis
      using quiet_trans [OF q1 quiet_trans [OF quiet_on_error quiet_cleanup]]
      by (simp add: analyze_commit_safely_def)
  next
    case (Inr d)
    obtain b w2 where b: "try_body e self h files cb d w1 = (b, w2)"
      by (cases "try_body e self h files cb d w1")
    have q2: "quiet w w2" using quiet_try_body [of w1 e self h files cb d] b q1
      by (auto intro: quiet_trans)
    show ?thesis
      using m Inr b quiet_trans [OF q2 quiet_trans [OF quiet_on_error quiet_cleanup]]
        quiet_trans [OF q2 quiet_cleanup]
      by (cases b) (simp_all add: analyze_commit_safely_def)
  qed
qed

lemma quiet_store_result: "quiet w (snd (store_result cb h r results w))"
  by (auto simp: store_result_def quiet_emit split: option.splits)

lemma quiet_commits_loop: "quiet w (snd (commits_loop e self files cb n i cs results w))"
proof (induction cs arbitrary: i results w)
  case Nil
  show ?case by simp
next
  case (Cons h rest)
  let ?w1 = "emit cb (''Processing commit '' @ show_nat (i + 1) @ ''/'' @ show_nat n
                          @ '': '' @ take 8 h) w"
  obtain r w2 where a: "analyze_commit_safely e self h files cb ?w1 = (r, w2)"
    by (cases "analyze_commit_safely e self h files cb ?w1")
  obtain res' w3 where s: "store_result cb h r results w2 = (res', w3)"
    by (cases "store_result cb h r results w2")
  have "quiet w ?w1" by (rule quiet_emit)
  moreover have "quiet ?w1 w2" using quiet_analyze_commit_safely [of ?w1 e self h files cb] a by simp
  moreover have "quiet w2 w3" using quiet_store_result [of w2 cb h r results] s by simp
  ultimately have "quiet w w3" by (blast intro: quiet_trans)
  with Cons.IH [where w = w3 and i = "i + 1" and results = res'] a s show ?case
    by (auto intro: quiet_trans)
qed

lemma quiet_analyze_all_commits: "quiet w (snd (analyze_all_commits e self files cb w))"
proof -
  let ?w0 = "log_event (Subprocess [''git'', ''log'', ''--oneline'', ''--all'']) w"
  have q0: "quiet w ?w0" by (simp add: quiet_log_event)
  show ?thesis
  proof (cases "subprocess_run (git_log e (repo w))")
    case (Inl ex)
    with q0 show ?thesis
      by (cases ex) (auto simp: analyze_all_commits_def Let_def quiet_iff)
  next
    case (Inr out)
    with q0 quiet_commits_loop [of ?w0 e self files cb "length (parse_commits out)" 0
        "parse_commits out" "[]"]
    show ?thesis
      by (auto simp: analyze_all_commits_def Let_def split: prod.splits intro: quiet_trans)
  qed
qed



text \<open>What the steps of a pass do to the temporary directories.\<close>

lemma on_error_fields [simp]:
  "repo (on_error h ex w) = repo w"
  "tmp_dirs (on_error h ex w) = tmp_dirs w"
  "tmp_files (on_error h ex w) = tmp_files w"
  "rng (on_error h ex w) = rng w"
  by (simp_all add: on_error_def)

lemma fetch_tmp_dirs:
  "get_file_content_at_commit e self rv path w = (r, w') \<Longrightarrow> tmp_dirs w' = tmp_dirs w"
  using fetch_world [of e self rv path w] by simp

lemma mkdir_parents_tmp_dirs:
  "mkdir_parents e d w = (r, w') \<Longrightarrow> tmp_dirs w' = tmp_dirs w"
  by (auto simp: mkdir_parents_def Let_def split: if_splits)

lemma write_text_tmp_dirs:
  "write_text e p c w = (r, w') \<Longrightarrow> tmp_dirs w' = tmp_dirs w"
  by (auto simp: write_text_def Let_def split: if_splits)

lemma materialize_tmp_dirs:
  "materialize e self h d files acc w = (r, w') \<Longrightarrow> tmp_dirs w' = tmp_dirs w"
proof (induction files arbitrary: acc w)
  case Nil
  then show ?case by simp
next
  case (Cons f rest)
  show ?case
  proof (cases "relpath e f (repo_path self)")
    case (Inl ex)
    with Cons.prems show ?thesis by simp
  next
    case (Inr rel)
    show ?thesis
    proof (cases "prefix ''..'' rel")
      case True
      with Inr Cons show ?thesis by simp
    next
      case False
      obtain g w1 where g: "get_file_content_at_commit e self h rel w = (g, w1)"
        by (cases "get_file_content_at_commit e self h rel w")
      note q1 = fetch_tmp_dirs [OF g]
      show ?thesis
      proof (cases g)
        case (Inl ex)
        with Inr False g q1 Cons.prems show ?thesis by simp
      next
        case gr: (Inr c)
        show ?thesis
        proof (cases c)
          case None
          with Inr False g gr Cons.prems
          have "materialize e self h d rest acc w1 = (r, w')" by simp
          from Cons.IH [OF this] q1 show ?thesis by simp
        next
          case (Some content)
          obtain m w2 where m: "mkdir_parents e (parent (d @ ''/'' @ rel)) w1 = (m, w2)"
            by (cases "mkdir_parents e (parent (d @ ''/'' @ rel)) w1")
          note q2 = mkdir_parents_tmp_dirs [OF m]
          obtain t w3 where t: "write_text e (d @ ''/'' @ rel) content w2 = (t, w3)"
            by (cases "write_text e (d @ ''/'' @ rel) content w2")
          note q3 = write_text_tmp_dirs [OF t]
          show ?thesis
          proof (cases m)
            case (Inl ex)
            with Inr False g gr Some m Cons.prems q1 q2 show ?thesis by simp
          next
            case mr: (Inr u)
            show ?thesis
            proof (cases t)
              case (Inl ex)
              with Inr False g gr Some m mr t Cons.prems q1 q2 q3 show ?thesis by simp
            next
              case tr: (Inr u')
              with Inr False g gr Some m mr t Cons.prems
              have "materialize e self h d rest (acc @ [d @ ''/'' @ rel]) w3 = (r, w')"
                by simp
              from Cons.IH [OF this] q1 q2 q3 show ?thesis by simp
            qed
          qed
        qed
      qed
    qed
  qed
qed

lemma run_analysis_tmp_dirs:
  "run_analysis e h tf cb w = (r, w') \<Longrightarrow> tmp_dirs w' = tmp_dirs w"
  by (auto simp: run_analysis_def Let_def split: option.splits outcome.splits if_splits)

lemma try_body_tmp_dirs:
  assumes "try_body e self h files cb d w = (r, w')"
  shows "tmp_dirs w' = tmp_dirs w"
proof -
  obtain m w1 where m: "materialize e self h d files [] w = (m, w1)"
    by (cases "materialize e self h d files [] w")
  note q1 = materialize_tmp_dirs [OF m]
  show ?thesis
  proof (cases m)
    case (Inl ex)
    with m q1 assms show ?thesis by (simp add: try_body_def)
  next
    case (Inr tf)
    obtain a w2 where a: "run_analysis e h tf cb w1 = (a, w2)"
      by (cases "run_analysis e h tf cb w1")
    from run_analysis_tmp_dirs [OF a] q1 have "tmp_dirs w2 = tmp_dirs w" by simp
    with m Inr q1 a assms show ?thesis by (auto simp: try_body_def split: if_splits)
  qed
qed

lemma mkdtemp_try_fresh:
  "mkdtemp_try e pre existing k i = (Inr d, j) \<Longrightarrow> d \<notin> set existing \<and> d \<noteq> []"
  by (induction k arbitrary: i) (auto simp: Let_def split: if_splits)

lemma mkdtemp_created:
  assumes "mkdtemp e pre w = (Inr d, w1)"
  shows "d \<notin> set (tmp_dirs w) \<and> d \<noteq> [] \<and> tmp_dirs w1 = tmp_dirs w @ [d]
         \<and> tmp_files w1 = tmp_files w \<and> repo w1 = repo w
         \<and> trace w1 = trace w @ [Mkdtemp pre]"
proof -
  obtain r j where t: "mkdtemp_try e pre (tmp_dirs w) (tmp_max e) (rng w) = (r, j)"
    by (cases "mkdtemp_try e pre (tmp_dirs w) (tmp_max e) (rng w)")
  with assms have r: "r = Inr d" and w1: "w1 = (log_event (Mkdtemp pre) w)
      \<lparr>tmp_dirs := tmp_dirs w @ [d], rng := j\<rparr>"
    by (auto simp: mkdtemp_def Let_def split: sum.splits)
  from t r mkdtemp_try_fresh [of e pre "tmp_dirs w" "tmp_max e" "rng w" d j]
  have "d \<notin> set (tmp_dirs w) \<and> d \<noteq> []" by simp
  with w1 show ?thesis by simp
qed

lemma cleanup_removes:
  assumes "d \<noteq> []" "d \<in> set (tmp_dirs w)" "\<not> rmtree_fails e d"
  shows "cleanup e (Some d) w =
           (log_event (Rmtree d) w)
             \<lparr>tmp_dirs := removeAll d (tmp_dirs w),
              tmp_files := filter (\<lambda>(p, c). \<not> prefix (d @ ''/'') p) (tmp_files w)\<rparr>"
  using assms by (simp add: cleanup_def rmtree_def Let_def)

lemma cleanup_warns:
  assumes "d \<noteq> []" "d \<in> set (tmp_dirs w)" "rmtree_fails e d"
  shows "cleanup e (Some d) w =
           log_event (Stderr (''Warning: Could not clean up temp directory '' @ d
                                @ '': rmtree failed'')) (log_event (Rmtree d) w)"
  using assms by (simp add: cleanup_def rmtree_def Let_def)

text \<open>Whether removal fails has no part in anything before the \<^verbatim>\<open>finally\<close> clause.\<close>

lemma relpath_rmtree_indep [simp]: "relpath (e\<lparr>rmtree_fails := f\<rparr>) p s = relpath e p s"
  by (simp add: relpath_def abspath_def)

lemma fetch_rmtree_indep [simp]:
  "get_file_content_at_commit (e\<lparr>rmtree_fails := f\<rparr>) self rv p w
     = get_file_content_at_commit e self rv p w"
  by (simp add: get_file_content_at_commit_def git_show_def)

lemma mkdir_rmtree_indep [simp]:
  "mkdir_parents (e\<lparr>rmtree_fails := f\<rparr>) d w = mkdir_parents e d w"
  by (simp add: mkdir_parents_def)

lemma write_rmtree_indep [simp]:
  "write_text (e\<lparr>rmtree_fails := f\<rparr>) p c w = write_text e p c w"
  by (simp add: write_text_def)

lemma materialize_rmtree_indep [simp]:
  "materialize (e\<lparr>rmtree_fails := f\<rparr>) self h d files acc w = materialize e self h d files acc w"
  by (induction files arbitrary: acc w)
     (simp_all add: Let_def split: sum.splits prod.splits option.splits)

lemma run_analysis_rmtree_indep [simp]:
  "run_analysis (e\<lparr>rmtree_fails := f\<rparr>) h tf cb w = run_analysis e h tf cb w"
  by (simp add: run_analysis_def)

lemma try_body_rmtree_indep [simp]:
  "try_body (e\<lparr>rmtree_fails := f\<rparr>) self h files cb d w = try_body e self h files cb d w"
  by (simp add: try_body_def split: sum.splits prod.splits)

lemma mkdtemp_try_rmtree_indep [simp]:
  "mkdtemp_try (e\<lparr>rmtree_fails := f\<rparr>) pre ex k i = mkdtemp_try e pre ex k i"
  by (induction k arbitrary: i) (simp_all add: Let_def)

lemma mkdtemp_rmtree_indep [simp]: "mkdtemp (e\<lparr>rmtree_fails := f\<rparr>) pre w = mkdtemp e pre w"
  by (simp add: mkdtemp_def)

lemma pass_result_rmtree_indep:
  "fst (analyze_commit_safely (e\<lparr>rmtree_fails := f\<rparr>) self h files cb w)
     = fst (analyze_commit_safely e self h files cb w)"
  by (simp add: analyze_commit_safely_def Let_def split: prod.splits sum.splits)


text \<open>
  Claim C2. When the pass over a revision has created its temporary directory, the
  \<^verbatim>\<open>finally\<close> clause calls \<^verbatim>\<open>rmtree\<close> on it whatever happened in between. If the removal
  succeeds, the temporary directories are those from before the pass and no file is left
  below the directory. If the removal fails, the last thing the pass does is print a
  warning on standard error. Either way the pass returns the value it would return if the
  removal succeeded.
\<close>

theorem sandbox_removed:
  assumes "mkdtemp e (''git_analysis_'' @ take 8 h @ ''_'')
             (emit cb (''Analyzing commit '' @ take 8 h @ ''...'') w) = (Inr d, w1)"
  shows "d \<notin> set (tmp_dirs w)
   \<and> Rmtree d \<in> set (new_events w (snd (analyze_commit_safely e self h files cb w)))
   \<and> (\<not> rmtree_fails e d \<longrightarrow>
        tmp_dirs (snd (analyze_commit_safely e self h files cb w)) = tmp_dirs w
        \<and> (\<forall>p c. (p, c) \<in> set (tmp_files (snd (analyze_commit_safely e self h files cb w)))
                 \<longrightarrow> \<not> prefix (d @ ''/'') p))
   \<and> (rmtree_fails e d \<longrightarrow>
        last (trace (snd (analyze_commit_safely e self h files cb w)))
          = Stderr (''Warning: Could not clean up temp directory '' @ d @ '': rmtree failed''))
   \<and> fst (analyze_commit_safely e self h files cb w)
       = fst (analyze_commit_safely (e\<lparr>rmtree_fails := (\<lambda>p. False)\<rparr>) self h files cb w)"
proof -
  let ?w0 = "emit cb (''Analyzing commit '' @ take 8 h @ ''...'') w"
  let ?W = "snd (analyze_commit_safely e self h files cb w)"
  from mkdtemp_created [OF assms]
  have fresh: "d \<notin> set (tmp_dirs w)" and ne: "d \<noteq> []"
    and d1: "tmp_dirs w1 = tmp_dirs w @ [d]"
    by simp_all
  obtain b w2 where b: "try_body e self h files cb d w1 = (b, w2)"
    by (cases "try_body e self h files cb d w1")
  define w3 where "w3 = (case b of Inl ex \<Rightarrow> on_error h ex w2 | Inr r \<Rightarrow> w2)"
  have d3: "tmp_dirs w3 = tmp_dirs w @ [d]"
    using try_body_tmp_dirs [OF b] d1 by (simp add: w3_def split: sum.splits)
  have W: "?W = cleanup e (Some d) w3"
    using assms b by (simp add: analyze_commit_safely_def w3_def split: sum.splits)
  have "quiet w ?w0" by (rule quiet_emit)
  moreover have "quiet ?w0 w1"
    using quiet_mkdtemp [of ?w0 e "''git_analysis_'' @ take 8 h @ ''_''"] assms by simp
  moreover have "quiet w1 w2" using quiet_try_body [of w1 e self h files cb d] b by simp
  moreover have "quiet w2 w3" by (simp add: w3_def quiet_on_error split: sum.splits)
  ultimately have "quiet w w3" by (blast intro: quiet_trans)
  then obtain xs where xs: "trace w3 = trace w @ xs" by (auto simp: quiet_iff)
  have mem: "d \<in> set (tmp_dirs w3)" using d3 by simp
  have ev: "Rmtree d \<in> set (new_events w ?W)"
  proof (cases "rmtree_fails e d")
    case True
    from cleanup_warns [OF ne mem True] W xs show ?thesis by (simp add: new_events_def)
  next
    case False
    from cleanup_removes [OF ne mem False] W xs show ?thesis by (simp add: new_events_def)
  qed
  have ok: "\<not> rmtree_fails e d \<longrightarrow>
        tmp_dirs ?W = tmp_dirs w
        \<and> (\<forall>p c. (p, c) \<in> set (tmp_files ?W) \<longrightarrow> \<not> prefix (d @ ''/'') p)"
  proof
    assume f: "\<not> rmtree_fails e d"
    from cleanup_removes [OF ne mem f] W d3 fresh
    show "tmp_dirs ?W = tmp_dirs w
        \<and> (\<forall>p c. (p, c) \<in> set (tmp_files ?W) \<longrightarrow> \<not> prefix (d @ ''/'') p)"
      by auto
  qed
  have warn: "rmtree_fails e d \<longrightarrow>
        last (trace ?W)
          = Stderr (''Warning: Could not clean up temp directory '' @ d @ '': rmtree failed'')"
  proof
    assume f: "rmtree_fails e d"
    from cleanup_warns [OF ne mem f] W
    show "last (trace ?W)
          = Stderr (''Warning: Could not clean up temp directory '' @ d @ '': rmtree failed'')"
      by simp
  qed
  from fresh ev ok warn pass_result_rmtree_indep [where e = e and f = "\<lambda>p. False"]
  show ?thesis by simp
qed


theorem sandbox_removed_witness:
  "''/tmp/git_analysis_a1a1a1a_x'' \<notin> set (tmp_dirs ex_world)
   \<and> Rmtree ''/tmp/git_analysis_a1a1a1a_x''
       \<in> set (new_events ex_world
               (snd (analyze_commit_safely ex_env ex_self ''a1a1a1a'' [''/repo/a.py''] True
                       ex_world)))
   \<and> tmp_dirs (snd (analyze_commit_safely ex_env ex_self ''a1a1a1a'' [''/repo/a.py''] True
                      ex_world)) = tmp_dirs ex_world
   \<and> last (trace (snd (analyze_commit_safely (ex_env\<lparr>rmtree_fails := (\<lambda>p. True)\<rparr>) ex_self
                          ''a1a1a1a'' [''/repo/a.py''] True ex_world)))
       = Stderr (''Warning: Could not clean up temp directory ''
                   @ ''/tmp/git_analysis_a1a1a1a_x'' @ '': rmtree failed'')"
proof -
  let ?pre = "''git_analysis_'' @ take 8 ''a1a1a1a'' @ ''_''"
  let ?w0 = "emit True (''Analyzing commit '' @ take 8 ''a1a1a1a'' @ ''...'') ex_world"
  have f: "fst (mkdtemp ex_env ?pre ?w0) = Inr ''/tmp/git_analysis_a1a1a1a_x''"
    by code_simp
  have mk: "mkdtemp ex_env ?pre ?w0
              = (Inr ''/tmp/git_analysis_a1a1a1a_x'', snd (mkdtemp ex_env ?pre ?w0))"
    using f by (metis prod.collapse)
  have mk': "mkdtemp (ex_env\<lparr>rmtree_fails := (\<lambda>p. True)\<rparr>) ?pre ?w0
              = (Inr ''/tmp/git_analysis_a1a1a1a_x'', snd (mkdtemp ex_env ?pre ?w0))"
    using mk by simp
  have ok: "\<not> rmtree_fails ex_env ''/tmp/git_analysis_a1a1a1a_x''"
    by (simp add: ex_env_def)
  have bad: "rmtree_fails (ex_env\<lparr>rmtree_fails := (\<lambda>p. True)\<rparr>) ''/tmp/git_analysis_a1a1a1a_x''"
    by simp
  from sandbox_removed [OF mk, of ex_self "[''/repo/a.py'']"] ok
  have 1: "''/tmp/git_analysis_a1a1a1a_x'' \<notin> set (tmp_dirs ex_world)
   \<and> Rmtree ''/tmp/git_analysis_a1a1a1a_x''
       \<in> set (new_events ex_world
               (snd (analyze_commit_safely ex_env ex_self ''a1a1a1a'' [''/repo/a.py''] True
                       ex_world)))
   \<and> tmp_dirs (snd (analyze_commit_safely ex_env ex_self ''a1a1a1a'' [''/repo/a.py''] True
                      ex_world)) = tmp_dirs ex_world"
    by blast
  from sandbox_removed [OF mk', of ex_self "[''/repo/a.py'']"] bad
  have 2: "last (trace (snd (analyze_commit_safely (ex_env\<lparr>rmtree_fails := (\<lambda>p. True)\<rparr>) ex_self
                          ''a1a1a1a'' [''/repo/a.py''] True ex_world)))
       = Stderr (''Warning: Could not clean up temp directory ''
                   @ ''/tmp/git_analysis_a1a1a1a_x'' @ '': rmtree failed'')"
    by blast
  from 1 2 show ?thesis by blast
qed

text \<open>
  Claim C6, as the code has it. A path without a \<^verbatim>\<open>.git\<close> entry makes the constructor raise
  \<^verbatim>\<open>ValueError\<close>, so there is no analyzer to run. When the enumeration command fails, the
  run issues that one command and nothing else: no temporary directory, no lookup, no call
  of the analyzer. If the command exited with a non-zero status, the run prints an error
  and returns an empty result map; any other exception leaves the run.
\<close>

theorem enumeration_failure:
  "(\<not> fs_exists e (fs_resolve e path @ ''/.git'') \<longrightarrow>
      init e path = Inl (ValueError (''Not a git repository: '' @ fs_resolve e path)))
   \<and> (subprocess_run (git_log e (repo w)) = Inl ex \<longrightarrow>
        fst (analyze_all_commits e self target_files cb w)
          = (case ex of CalledProcessError rc \<Rightarrow> Inr [] | _ \<Rightarrow> Inl ex)
        \<and> new_events w (snd (analyze_all_commits e self target_files cb w))
          = Subprocess [''git'', ''log'', ''--oneline'', ''--all'']
            # (case ex of
                 CalledProcessError rc \<Rightarrow>
                   [Stderr (''Error getting commit list: '' @ str_exn ex)]
               | _ \<Rightarrow> [])
        \<and> repo (snd (analyze_all_commits e self target_files cb w)) = repo w
        \<and> tmp_dirs (snd (analyze_all_commits e self target_files cb w)) = tmp_dirs w
        \<and> tmp_files (snd (analyze_all_commits e self target_files cb w)) = tmp_files w
        \<and> rng (snd (analyze_all_commits e self target_files cb w)) = rng w)"
  by (cases ex) (simp_all add: init_def analyze_all_commits_def Let_def new_events_def)

theorem enumeration_failure_witness:
  "init (ex_env\<lparr>git_installed := False\<rparr>) ''/elsewhere''
     = Inl (ValueError ''Not a git repository: /elsewhere'')
   \<and> fst (analyze_all_commits (ex_env\<lparr>git_installed := False\<rparr>) ex_self [''/repo/a.py''] True
          ex_world)
       = Inl (OSError ''No such file or directory: git'')
   \<and> new_events ex_world
        (snd (analyze_all_commits (ex_env\<lparr>git_installed := False\<rparr>) ex_self [''/repo/a.py'']
                True ex_world))
       = [Subprocess [''git'', ''log'', ''--oneline'', ''--all'']]"
proof -
  let ?e = "ex_env\<lparr>git_installed := False\<rparr>"
  have a: "\<not> fs_exists ?e (fs_resolve ?e ''/elsewhere'' @ ''/.git'')"
    by (simp add: ex_env_def)
  have r: "fs_resolve ?e ''/elsewhere'' = ''/elsewhere''"
    by (simp add: ex_env_def)
  have b: "subprocess_run (git_log (ex_env\<lparr>git_installed := False\<rparr>) (repo ex_world))
             = Inl (OSError ''No such file or directory: git'')"
    by (simp add: git_log_def)
  from enumeration_failure [where e = ?e and path = "''/elsewhere''" and w = ex_world
         and ex = "OSError ''No such file or directory: git''" and self = ex_self
         and target_files = "[''/repo/a.py'']" and cb = True]
       a r b
  show ?thesis by simp
qed

text \<open>
  A repository whose object database cannot be read: the enumeration command exits with
  status 128, and the run returns normally, with an empty result map.
\<close>

theorem failed_enumeration_returns_empty:
  "subprocess_run (git_log ex_env (ex_repo\<lparr>intact := False\<rparr>)) = Inl (CalledProcessError 128)
   \<and> analyze_all_commits ex_env ex_self [''/repo/a.py''] True
        (ex_world\<lparr>repo := ex_repo\<lparr>intact := False\<rparr>\<rparr>)
       = (Inr [],
          \<lparr>repo = ex_repo\<lparr>intact := False\<rparr>, tmp_dirs = [], tmp_files = [], rng = 0,
           trace = [Subprocess [''git'', ''log'', ''--oneline'', ''--all''],
                    Stderr ''Error getting commit list: Command returned non-zero exit status'']\<rparr>)"
  by code_simp

text \<open>Which passes a run opens, and which keys its result map can hold.\<close>

lemma mkdtemp_prefixes_append [simp]:
  "mkdtemp_prefixes (xs @ ys) = mkdtemp_prefixes xs @ mkdtemp_prefixes ys"
  by (induction xs rule: mkdtemp_prefixes.induct) simp_all

lemma emit_prefixes [simp]:
  "mkdtemp_prefixes (trace (emit cb m w)) = mkdtemp_prefixes (trace w)"
  by (simp add: emit_def)

lemma on_error_prefixes [simp]:
  "mkdtemp_prefixes (trace (on_error h ex w)) = mkdtemp_prefixes (trace w)"
  by (simp add: on_error_def)

lemma cleanup_prefixes [simp]:
  "mkdtemp_prefixes (trace (cleanup e td w)) = mkdtemp_prefixes (trace w)"
  by (simp add: cleanup_def rmtree_def Let_def split: option.splits)

lemma fetch_prefixes:
  "get_file_content_at_commit e self rv path w = (r, w')
     \<Longrightarrow> mkdtemp_prefixes (trace w') = mkdtemp_prefixes (trace w)"
  using fetch_world [of e self rv path w] by simp

lemma mkdir_parents_prefixes:
  "mkdir_parents e d w = (r, w') \<Longrightarrow> mkdtemp_prefixes (trace w') = mkdtemp_prefixes (trace w)"
  by (auto simp: mkdir_parents_def Let_def split: if_splits)

lemma write_text_prefixes:
  "write_text e p c w = (r, w') \<Longrightarrow> mkdtemp_prefixes (trace w') = mkdtemp_prefixes (trace w)"
  by (auto simp: write_text_def Let_def split: if_splits)

lemma materialize_prefixes:
  "materialize e self h d files acc w = (r, w')
     \<Longrightarrow> mkdtemp_prefixes (trace w') = mkdtemp_prefixes (trace w)"
proof (induction files arbitrary: acc w)
  case Nil
  then show ?case by simp
next
  case (Cons f rest)
  show ?case
  proof (cases "relpath e f (repo_path self)")
    case (Inl ex)
    with Cons.prems show ?thesis by simp
  next
    case (Inr rel)
    show ?thesis
    proof (cases "prefix ''..'' rel")
      case True
      with Inr Cons show ?thesis by simp
    next
      case False
      obtain g w1 where g: "get_file_content_at_commit e self h rel w = (g, w1)"
        by (cases "get_file_content_at_commit e self h rel w")
      note q1 = fetch_prefixes [OF g]
      show ?thesis
      proof (cases g)
        case (Inl ex)
        with Inr False g q1 Cons.prems show ?thesis by simp
      next
        case gr: (Inr c)
        show ?thesis
        proof (cases c)
          case None
          with Inr False g gr Cons.prems
          have "materialize e self h d rest acc w1 = (r, w')" by simp
          from Cons.IH [OF this] q1 show ?thesis by simp
        next
          case (Some content)
          obtain m w2 where m: "mkdir_parents e (parent (d @ ''/'' @ rel)) w1 = (m, w2)"
            by (cases "mkdir_parents e (parent (d @ ''/'' @ rel)) w1")
          note q2 = mkdir_parents_prefixes [OF m]
          obtain t w3 where t: "write_text e (d @ ''/'' @ rel) content w2 = (t, w3)"
            by (cases "write_text e (d @ ''/'' @ rel) content w2")
          note q3 = write_text_prefixes [OF t]
          show ?thesis
          proof (cases m)
            case (Inl ex)
            with Inr False g gr Some m Cons.prems q1 q2 show ?thesis by simp
          next
            case mr: (Inr u)
            show ?thesis
            proof (cases t)
              case (Inl ex)
              with Inr False g gr Some m mr t Cons.prems q1 q2 q3 show ?thesis by simp
            next
              case tr: (Inr u')
              with Inr False g gr Some m mr t Cons.prems
              have "materialize e self h d rest (acc @ [d @ ''/'' @ rel]) w3 = (r, w')"
                by simp
              from Cons.IH [OF this] q1 q2 q3 show ?thesis by simp
            qed
          qed
        qed
      qed
    qed
  qed
qed

lemma run_analysis_prefixes:
  "run_analysis e h tf cb w = (r, w')
     \<Longrightarrow> mkdtemp_prefixes (trace w') = mkdtemp_prefixes (trace w)"
  by (auto simp: run_analysis_def Let_def split: option.splits outcome.splits if_splits)

lemma try_body_prefixes:
  assumes "try_body e self h files cb d w = (r, w')"
  shows "mkdtemp_prefixes (trace w') = mkdtemp_prefixes (trace w)"
proof -
  obtain m w1 where m: "materialize e self h d files [] w = (m, w1)"
    by (cases "materialize e self h d files [] w")
  note q1 = materialize_prefixes [OF m]
  show ?thesis
  proof (cases m)
    case (Inl ex)
    with m q1 assms show ?thesis by (simp add: try_body_def)
  next
    case (Inr tf)
    obtain a w2 where a: "run_analysis e h tf cb w1 = (a, w2)"
      by (cases "run_analysis e h tf cb w1")
    from run_analysis_prefixes [OF a] q1
    have "mkdtemp_prefixes (trace w2) = mkdtemp_prefixes (trace w)" by simp
    with m Inr q1 a assms show ?thesis by (auto simp: try_body_def split: if_splits)
  qed
qed

lemma mkdtemp_prefixes_step:
  "mkdtemp e pre w = (r, w') \<Longrightarrow> mkdtemp_prefixes (trace w') = mkdtemp_prefixes (trace w) @ [pre]"
  by (auto simp: mkdtemp_def Let_def split: prod.splits sum.splits)

lemma pass_prefixes:
  "mkdtemp_prefixes (trace (snd (analyze_commit_safely e self h files cb w)))
     = mkdtemp_prefixes (trace w) @ [''git_analysis_'' @ take 8 h @ ''_'']"
proof -
  let ?w0 = "emit cb (''Analyzing commit '' @ take 8 h @ ''...'') w"
  obtain m w1 where m: "mkdtemp e (''git_analysis_'' @ take 8 h @ ''_'') ?w0 = (m, w1)"
    by (cases "mkdtemp e (''git_analysis_'' @ take 8 h @ ''_'') ?w0")
  from mkdtemp_prefixes_step [OF m]
  have q1: "mkdtemp_prefixes (trace w1)
              = mkdtemp_prefixes (trace w) @ [''git_analysis_'' @ take 8 h @ ''_'']"
    by simp
  show ?thesis
  proof (cases m)
    case (Inl ex)
    with m q1 show ?thesis by (simp add: analyze_commit_safely_def)
  next
    case (Inr d)
    obtain b w2 where b: "try_body e self h files cb d w1 = (b, w2)"
      by (cases "try_body e self h files cb d w1")
    from try_body_prefixes [OF b] q1 m Inr b show ?thesis
      by (cases b) (simp_all add: analyze_commit_safely_def)
  qed
qed

lemma store_result_prefixes:
  "store_result cb h r results w = (results', w')
     \<Longrightarrow> mkdtemp_prefixes (trace w') = mkdtemp_prefixes (trace w)"
  by (auto simp: store_result_def split: option.splits if_splits)

lemma update_key_set: "fst ` set (AList.update k v al) = insert k (fst ` set al)"
  by (induction al) auto

lemma store_result_keys:
  "store_result cb h r results w = (results', w')
     \<Longrightarrow> fst ` set results' \<subseteq> insert h (fst ` set results)"
proof -
  assume a: "store_result cb h r results w = (results', w')"
  then have "results' = results \<or> (\<exists>v. results' = AList.update h v results)"
    by (auto simp: store_result_def split: option.splits if_splits)
  then show ?thesis using update_key_set [of h _ results] by blast
qed

lemma commits_loop_prefixes:
  "commits_loop e self files cb n i cs results w = (results', w')
     \<Longrightarrow> mkdtemp_prefixes (trace w')
           = mkdtemp_prefixes (trace w) @ map (\<lambda>h. ''git_analysis_'' @ take 8 h @ ''_'') cs
         \<and> fst ` set results' \<subseteq> fst ` set results \<union> set cs"
proof (induction cs arbitrary: i results w)
  case Nil
  then show ?case by simp
next
  case (Cons h rest)
  let ?w1 = "emit cb (''Processing commit '' @ show_nat (i + 1) @ ''/'' @ show_nat n
                          @ '': '' @ take 8 h) w"
  obtain r w2 where a: "analyze_commit_safely e self h files cb ?w1 = (r, w2)"
    by (cases "analyze_commit_safely e self h files cb ?w1")
  obtain res' w3 where s: "store_result cb h r results w2 = (res', w3)"
    by (cases "store_result cb h r results w2")
  from Cons.prems a s
  have l: "commits_loop e self files cb n (i + 1) rest res' w3 = (results', w')" by simp
  have p2: "mkdtemp_prefixes (trace w2)
              = mkdtemp_prefixes (trace w) @ [''git_analysis_'' @ take 8 h @ ''_'']"
    using pass_prefixes [of e self h files cb ?w1] a by simp
  from store_result_prefixes [OF s] p2
  have p3: "mkdtemp_prefixes (trace w3)
              = mkdtemp_prefixes (trace w) @ [''git_analysis_'' @ take 8 h @ ''_'']"
    by simp
  from Cons.IH [OF l] p3
  have t: "mkdtemp_prefixes (trace w')
           = mkdtemp_prefixes (trace w)
             @ map (\<lambda>h. ''git_analysis_'' @ take 8 h @ ''_'') (h # rest)"
    by simp
  from Cons.IH [OF l] have "fst ` set results' \<subseteq> fst ` set res' \<union> set rest" by simp
  with store_result_keys [OF s]
  have k: "fst ` set results' \<subseteq> fst ` set results \<union> set (h # rest)"
    by (simp only: list.set) blast
  from t k show ?case by (rule conjI)
qed

text \<open>How a pass ends when something in it raises, and what the loop does then.\<close>

lemma pass_mkdtemp_failure:
  assumes "mkdtemp e (''git_analysis_'' @ take 8 h @ ''_'')
             (emit cb (''Analyzing commit '' @ take 8 h @ ''...'') w) = (Inl ex, w1)"
  shows "analyze_commit_safely e self h files cb w = (None, on_error h ex w1)"
  using assms by (simp add: analyze_commit_safely_def cleanup_def)

lemma pass_body_failure:
  assumes "mkdtemp e (''git_analysis_'' @ take 8 h @ ''_'')
             (emit cb (''Analyzing commit '' @ take 8 h @ ''...'') w) = (Inr d, w1)"
    and "try_body e self h files cb d w1 = (Inl ex, w2)"
  shows "analyze_commit_safely e self h files cb w
           = (None, cleanup e (Some d) (on_error h ex w2))"
  using assms by (simp add: analyze_commit_safely_def)

lemma analyzer_failure:
  assumes "analyzer e = Some f" and "f tf (tmp_files w) = Raises msg"
  shows "run_analysis e h tf cb w =
           (None,
            log_event Traceback
              (log_event (Stderr (''Error analyzing commit '' @ h @ '': '' @ msg))
                (emit cb (''Error during analysis for commit '' @ take 8 h @ '': '' @ msg)
                   (log_event (Analyze tf) w))))"
  using assms by (simp add: run_analysis_def Let_def)

lemma loop_skips_failed:
  assumes "fst (analyze_commit_safely e self h files cb
                  (emit cb (''Processing commit '' @ show_nat (i + 1) @ ''/'' @ show_nat n
                              @ '': '' @ take 8 h) w)) = None"
  shows "commits_loop e self files cb n i (h # rest) results w
           = commits_loop e self files cb n (i + 1) rest results
               (snd (analyze_commit_safely e self h files cb
                       (emit cb (''Processing commit '' @ show_nat (i + 1) @ ''/'' @ show_nat n
                                   @ '': '' @ take 8 h) w)))"
proof -
  let ?w1 = "emit cb (''Processing commit '' @ show_nat (i + 1) @ ''/'' @ show_nat n
                        @ '': '' @ take 8 h) w"
  obtain r w2 where a: "analyze_commit_safely e self h files cb ?w1 = (r, w2)"
    by (cases "analyze_commit_safely e self h files cb ?w1")
  with assms have "r = None" by simp
  with a show ?thesis by (simp add: store_result_def)
qed

lemma run_completes:
  assumes "subprocess_run (git_log e (repo w)) = Inr out"
  shows "(\<exists>results. fst (analyze_all_commits e self files cb w) = Inr results
            \<and> fst ` set results \<subseteq> set (parse_commits out))
         \<and> mkdtemp_prefixes (new_events w (snd (analyze_all_commits e self files cb w)))
             = map (\<lambda>h. ''git_analysis_'' @ take 8 h @ ''_'') (parse_commits out)"
proof -
  let ?w0 = "log_event (Subprocess [''git'', ''log'', ''--oneline'', ''--all'']) w"
  let ?cs = "parse_commits out"
  obtain results w1 where l: "commits_loop e self files cb (length ?cs) 0 ?cs [] ?w0 = (results, w1)"
    by (cases "commits_loop e self files cb (length ?cs) 0 ?cs [] ?w0")
  from assms l have r: "analyze_all_commits e self files cb w = (Inr results, w1)"
    by (simp add: analyze_all_commits_def Let_def)
  from commits_loop_prefixes [OF l]
  have p: "mkdtemp_prefixes (trace w1)
             = mkdtemp_prefixes (trace w) @ map (\<lambda>h. ''git_analysis_'' @ take 8 h @ ''_'') ?cs"
    and k: "fst ` set results \<subseteq> set ?cs"
    by simp_all
  from quiet_analyze_all_commits [of w e self files cb] r
  obtain new where n: "trace w1 = trace w @ new" by (auto simp: quiet_iff)
  with p have "mkdtemp_prefixes new = map (\<lambda>h. ''git_analysis_'' @ take 8 h @ ''_'') ?cs"
    by simp
  with n r k show ?thesis by (simp add: new_events_def)
qed

text \<open>
  Claim C3, as the code has it. An exception while the directory is made, or while the
  files are fetched and written, ends the pass with no result and is printed on standard
  error only; an exception of the analyzer ends the pass with no result and is handed to
  the progress callback and printed on standard error. A pass without a result leaves the
  result map as it was, and the loop goes on with the revisions that follow. When the
  enumeration succeeded, the run returns a result map over the enumerated revisions, and
  it has opened a pass for every one of them, in the order of the enumeration.
\<close>

theorem failures_do_not_abort:
  "(mkdtemp e (''git_analysis_'' @ take 8 h @ ''_'')
        (emit cb (''Analyzing commit '' @ take 8 h @ ''...'') w) = (Inl ex, w1) \<longrightarrow>
      analyze_commit_safely e self h files cb w
        = (None,
           log_event Traceback
             (log_event (Stderr (''Error analyzing commit '' @ h @ '': '' @ str_exn ex)) w1)))
   \<and> (mkdtemp e (''git_analysis_'' @ take 8 h @ ''_'')
        (emit cb (''Analyzing commit '' @ take 8 h @ ''...'') w) = (Inr d, w1)
      \<and> try_body e self h files cb d w1 = (Inl ex, w2) \<longrightarrow>
      analyze_commit_safely e self h files cb w
        = (None,
           cleanup e (Some d)
             (log_event Traceback
                (log_event (Stderr (''Error analyzing commit '' @ h @ '': '' @ str_exn ex))
                   w2))))
   \<and> (analyzer e = Some f \<and> f tf (tmp_files w) = Raises msg \<longrightarrow>
      run_analysis e h tf cb w
        = (None,
           log_event Traceback
             (log_event (Stderr (''Error analyzing commit '' @ h @ '': '' @ msg))
                (emit cb (''Error during analysis for commit '' @ take 8 h @ '': '' @ msg)
                   (log_event (Analyze tf) w)))))
   \<and> (fst (analyze_commit_safely e self h files cb
              (emit cb (''Processing commit '' @ show_nat (i + 1) @ ''/'' @ show_nat n
                          @ '': '' @ take 8 h) w)) = None \<longrightarrow>
      commits_loop e self files cb n i (h # rest) results w
        = commits_loop e self files cb n (i + 1) rest results
            (snd (analyze_commit_safely e self h files cb
                    (emit cb (''Processing commit '' @ show_nat (i + 1) @ ''/'' @ show_nat n
                                @ '': '' @ take 8 h) w))))
   \<and> (subprocess_run (git_log e (repo w)) = Inr out \<longrightarrow>
      (\<exists>stored. fst (analyze_all_commits e self files cb w) = Inr stored
                 \<and> fst ` set stored \<subseteq> set (parse_commits out))
      \<and> mkdtemp_prefixes (new_events w (snd (analyze_all_commits e self files cb w)))
          = map (\<lambda>h. ''git_analysis_'' @ take 8 h @ ''_'') (parse_commits out))"
  using pass_mkdtemp_failure [of e h cb w ex w1 self files]
    pass_body_failure [of e h cb w d w1 self files ex w2]
    analyzer_failure [of e f tf w msg h cb]
    loop_skips_failed [of e self h files cb i n w rest results]
    run_completes [of e w out self files cb]
  by (simp add: on_error_def)

end
